theory Spec2Isabelle
  imports Main "HOL-Library.Word" "HOL-Library.Log_Nat"
begin

unbundle bit_operations_syntax

section \<open>Data model\<close>

text \<open>
  Package \<open>comb\<close> (Go): \<open>src/main.go\<close> and its older sibling \<open>src/unnamed/part_000\<close>.
  A \<open>uuid.UUID\<close> is the array type \<open>[16]byte\<close>; it is a list of bytes here, and the
  theorems about identifiers assume its length is 16. \<open>int\<close>, \<open>uuid.Time\<close> and
  \<open>time.Duration\<close> are 64-bit signed integers in Go: they are \<open>int\<close> here, and the few
  places where the machine width is visible (the conversion to \<open>uint64\<close> in the mask, the
  shifts) are written out on \<open>64 word\<close>.
\<close>

type_synonym byte = "8 word"
type_synonym uint64 = "64 word"

text \<open>A run-time panic aborts the call; it is the left summand of every result.\<close>

datatype panic =
    IndexOutOfRange
  | SliceBoundsOutOfRange
  | DivideByZero
  | ByteSliceLarger  \<comment> \<open>\<open>panic("byte slice is larger than uint64")\<close>\<close>

text \<open>
  Error values: \<open>errors.New msg\<close>, the two sentinels of package \<open>io\<close>, and
  \<open>fmt.Errorf("%s: %w", name, err)\<close>, which wraps \<open>err\<close> under the prefix \<open>name\<close>.
\<close>

datatype go_error =
    EOF
  | ErrUnexpectedEOF
  | ErrorsNew string
  | Errorf string go_error

text \<open>
  A slice is a window into its backing array: the offset of its first element and its
  length. The functions that write through a slice take the backing array and return it
  updated, so that what a write leaves alone is a theorem and not a convention.
\<close>

datatype bslice = Slice (lo: nat) (slen: nat)

text \<open>\<open>a[k:]\<close> and \<open>a[:k]\<close> on an array: both panic unless \<open>0 \<le> k \<le> len(a)\<close>.\<close>

definition slice_from :: "byte list \<Rightarrow> int \<Rightarrow> panic + bslice" where
  "slice_from a k =
     (if 0 \<le> k \<and> k \<le> int (length a)
      then Inr (Slice (nat k) (length a - nat k))
      else Inl SliceBoundsOutOfRange)"

definition slice_to :: "byte list \<Rightarrow> int \<Rightarrow> panic + bslice" where
  "slice_to a k =
     (if 0 \<le> k \<and> k \<le> int (length a)
      then Inr (Slice 0 (nat k))
      else Inl SliceBoundsOutOfRange)"

section \<open>Fixed-width integer codec\<close>

text \<open>
  \<open>1 << k\<close> as the count of the outer shift: the untyped constant takes type \<open>uint\<close>
  (64 bits), so the value is \<open>2 ^ k\<close> below 64 and 0 from 64 on. The loop only reaches it
  with \<open>0 \<le> k\<close>.
\<close>

definition shl1 :: "int \<Rightarrow> nat" where
  "shl1 k = (if k < 64 then 2 ^ nat k else 0)"

text \<open>
  Shifts of a \<open>uint64\<close> by an unsigned count: the bits shifted out are lost, and a count
  of 64 or more leaves 0.
\<close>

definition shr :: "uint64 \<Rightarrow> nat \<Rightarrow> uint64" where
  "shr v s = (if s < 64 then drop_bit s v else 0)"

definition shl :: "uint64 \<Rightarrow> nat \<Rightarrow> uint64" where
  "shl v s = (if s < 64 then push_bit s v else 0)"

text \<open>
  \<^verbatim>\<open>
  func uint64ToBytes(b []byte, n int, v uint64) {
      _ = b[n-1] // early bounds check
      for i := 0; i < n; i++ {
          b[i] = byte(v >> (1 << (n - 1 - i)))
      }
  }
  \<close>
  \<open>byte(_)\<close> keeps the low eight bits (\<open>ucast\<close>).
\<close>

function uint64ToBytes_loop :: "byte list \<Rightarrow> bslice \<Rightarrow> int \<Rightarrow> uint64 \<Rightarrow> int \<Rightarrow> panic + byte list" where
  "uint64ToBytes_loop mem b n v i =
     (if i < n then
        (if 0 \<le> i \<and> i < int (slen b)
         then uint64ToBytes_loop
                (mem[lo b + nat i := ucast (shr v (shl1 (n - 1 - i)))]) b n v (i + 1)
         else Inl IndexOutOfRange)
      else Inr mem)"
  by pat_completeness auto
termination
  by (relation "measure (\<lambda>(mem, b, n, v, i). nat (n - i))") auto

declare uint64ToBytes_loop.simps [simp del]

definition uint64ToBytes :: "byte list \<Rightarrow> bslice \<Rightarrow> int \<Rightarrow> uint64 \<Rightarrow> panic + byte list" where
  "uint64ToBytes mem b n v =
     (if 0 \<le> n - 1 \<and> n - 1 < int (slen b)
      then uint64ToBytes_loop mem b n v 0
      else Inl IndexOutOfRange)"

text \<open>The byte the loop stores at index \<open>j\<close>: the right-hand side of its assignment.\<close>

definition encoded :: "int \<Rightarrow> uint64 \<Rightarrow> nat \<Rightarrow> byte" where
  "encoded n v j = ucast (shr v (shl1 (n - 1 - int j)))"

text \<open>
  \<^verbatim>\<open>
  func bytesToUint64(b []byte, n int) uint64 {
      lenInt := 8
      _ = b[n-1]           // early bounds check
      if len(b) > lenInt { // 8 bytes maximum.
          panic("byte slice is larger than uint64")
      }
      var val uint64
      for i := 0; i < n; i++ {
          val |= uint64(b[n-1-i]) << (i * lenInt)
      }
      return val
  }
  \<close>
\<close>

function bytesToUint64_loop :: "byte list \<Rightarrow> bslice \<Rightarrow> int \<Rightarrow> uint64 \<Rightarrow> int \<Rightarrow> panic + uint64" where
  "bytesToUint64_loop mem b n val i =
     (if i < n then
        (if 0 \<le> n - 1 - i \<and> n - 1 - i < int (slen b)
         then bytesToUint64_loop mem b n
                (val OR shl (ucast (mem ! (lo b + nat (n - 1 - i)))) (nat (i * 8))) (i + 1)
         else Inl IndexOutOfRange)
      else Inr val)"
  by pat_completeness auto
termination
  by (relation "measure (\<lambda>(mem, b, n, val, i). nat (n - i))") auto

declare bytesToUint64_loop.simps [simp del]

definition bytesToUint64 :: "byte list \<Rightarrow> bslice \<Rightarrow> int \<Rightarrow> panic + uint64" where
  "bytesToUint64 mem b n =
     (if 0 \<le> n - 1 \<and> n - 1 < int (slen b)
      then (if 8 < slen b then Inl ByteSliceLarger else bytesToUint64_loop mem b n 0 0)
      else Inl IndexOutOfRange)"

text \<open>
  \<^verbatim>\<open>
  func ReadCustomTimeStamp(id uuid.UUID, nBytes int) uint64 {
      return bytesToUint64(id[len(id)-nBytes:], nBytes)
  }
  \<close>
\<close>

definition ReadCustomTimeStamp :: "byte list \<Rightarrow> int \<Rightarrow> panic + uint64" where
  "ReadCustomTimeStamp ident nBytes =
     (case slice_from ident (int (length ident) - nBytes) of
        Inl p \<Rightarrow> Inl p
      | Inr b \<Rightarrow> bytesToUint64 ident b nBytes)"

definition ReadTimeStamp :: "byte list \<Rightarrow> panic + uint64" where
  "ReadTimeStamp ident = ReadCustomTimeStamp ident 6"

section \<open>The stored-unit count: the floating-point path\<close>

text \<open>
  \<open>SetTimeStamp\<close> computes \<open>uint64(math.Round(float64(t) / float64(res)))\<close>. The
  IEEE 754 binary64 operations on that path are modelled exactly, on integers: a finite
  value is sign, significand and exponent, \<open>(-1)^s * m * 2^e\<close> with \<open>m \<le> 2^53\<close>; the
  conversion from an integer and the division round to nearest, ties to even; the
  operands of the division are conversions of 64-bit integers, so its result can neither
  overflow nor be subnormal, but it is infinite or not a number when the divisor is zero.
\<close>

datatype float64 = Finite bool nat int | Infinity bool | NaN

text \<open>The integer nearest to \<open>a / b\<close> (for \<open>0 < b\<close>), a tie going to the even one.\<close>

definition rne :: "nat \<Rightarrow> nat \<Rightarrow> nat" where
  "rne a b =
     (let q = a div b; r = a mod b in
      if 2 * r < b then q
      else if b < 2 * r then q + 1
      else if even q then q else q + 1)"

text \<open>
  \<open>a / b\<close> (for \<open>0 < a\<close>, \<open>0 < b\<close>) rounded to 53 significant bits: the exponent \<open>e\<close>
  with \<open>2^52 \<le> a / (b * 2^e) < 2^53\<close>, found from the bit lengths, and the significand
  rounded at that exponent.
\<close>

definition round53 :: "nat \<Rightarrow> nat \<Rightarrow> nat \<times> int" where
  "round53 a b =
     (let e0 = bitlen (int a) - bitlen (int b) - 52;
          e = (if 2 ^ 52 * b * 2 ^ nat e0 \<le> a * 2 ^ nat (- e0) then e0 else e0 - 1)
      in (rne (a * 2 ^ nat (- e)) (b * 2 ^ nat e), e))"

text \<open>\<open>float64(x)\<close> for a signed integer \<open>x\<close>.\<close>

definition float64_of_int :: "int \<Rightarrow> float64" where
  "float64_of_int x =
     (if x = 0 then Finite False 0 0
      else case round53 (nat \<bar>x\<bar>) 1 of (m, e) \<Rightarrow> Finite (x < 0) m e)"

text \<open>\<open>x / y\<close> on binary64, for finite operands.\<close>

fun float64_div :: "float64 \<Rightarrow> float64 \<Rightarrow> float64" where
  "float64_div (Finite sx mx ex) (Finite sy my ey) =
     (if my = 0 then (if mx = 0 then NaN else Infinity (sx \<noteq> sy))
      else if mx = 0 then Finite (sx \<noteq> sy) 0 0
      else case round53 mx my of (m, e) \<Rightarrow> Finite (sx \<noteq> sy) m (e + ex - ey))"
| "float64_div x y = NaN"

text \<open>\<open>math.Round\<close>: the nearest integer, a half going away from zero; exact.\<close>

fun math_Round :: "float64 \<Rightarrow> float64" where
  "math_Round (Finite s m e) =
     (if 0 \<le> e then Finite s m e
      else Finite s ((m + 2 ^ nat (- e - 1)) div 2 ^ nat (- e)) 0)"
| "math_Round x = x"

text \<open>
  \<open>uint64(x)\<close> for a binary64 \<open>x\<close>: the fraction is discarded. Where the truncated value
  is not a \<open>uint64\<close> (negative, \<open>2^64\<close> or more, infinite, not a number) the language
  leaves the result to the implementation: it is the parameter \<open>impl\<close>.
\<close>

fun uint64_of_float64 :: "(float64 \<Rightarrow> uint64) \<Rightarrow> float64 \<Rightarrow> uint64" where
  "uint64_of_float64 impl (Finite s m e) =
     (let v = (if 0 \<le> e then m * 2 ^ nat e else m div 2 ^ nat (- e)) in
      if v = 0 then 0
      else if s then impl (Finite s m e)
      else if v < 2 ^ 64 then word_of_nat v
      else impl (Finite s m e))"
| "uint64_of_float64 impl x = impl x"

text \<open>One implementation: every conversion the language leaves open yields 0.\<close>

definition impl_zero :: "float64 \<Rightarrow> uint64" where
  "impl_zero x = 0"

text \<open>Go's \<open>/\<close> on signed integers truncates towards zero.\<close>

definition quo :: "int \<Rightarrow> int \<Rightarrow> int" where
  "quo a b = sgn a * sgn b * (\<bar>a\<bar> div \<bar>b\<bar>)"

text \<open>\<open>time.Second\<close>, in nanoseconds.\<close>

definition Second :: int where
  "Second = 1000000000"

section \<open>Timestamp write\<close>

text \<open>
  \<^verbatim>\<open>
  func SetTimeStamp(id uuid.UUID, nBytes int, t uuid.Time, res time.Duration) (uuid.UUID, error) {
      res = time.Second / 10 / res // Translate duration into parts per second.
      if nBytes > len(id) {
          return id, errors.New("to many bytes to format")
      }
      mask := uint64(1<<uint64(nBytes*8) - 1)
      timeBytes := uint64(math.Round((float64(t) / float64(res)))) & mask
      uint64ToBytes(id[len(id)-nBytes:], nBytes, timeBytes)
      return id, nil
  }
  \<close>
  The three computed values are definitions of their own: \<open>scale\<close> is the new value of
  \<open>res\<close> (the division panics on 0, which \<open>SetTimeStamp\<close> checks before it), \<open>storedUnits\<close>
  is the count before the mask, \<open>maskN\<close> is the source's \<open>mask\<close>. In it the constant 1 has type
  \<open>uint64\<close>, so the shift gives 0 from 64 on and the subtraction wraps.
\<close>

definition scale :: "int \<Rightarrow> int" where
  "scale res = quo (quo Second 10) res"

definition storedUnits :: "(float64 \<Rightarrow> uint64) \<Rightarrow> int \<Rightarrow> int \<Rightarrow> uint64" where
  "storedUnits impl t res =
     uint64_of_float64 impl (math_Round (float64_div (float64_of_int t) (float64_of_int res)))"

definition maskN :: "int \<Rightarrow> uint64" where
  "maskN nBytes = shl 1 (unat (word_of_int (nBytes * 8) :: uint64)) - 1"

definition SetTimeStamp ::
  "(float64 \<Rightarrow> uint64) \<Rightarrow> byte list \<Rightarrow> int \<Rightarrow> int \<Rightarrow> int \<Rightarrow> panic + (byte list \<times> go_error option)" where
  "SetTimeStamp impl ident nBytes t res =
     (if res = 0 then Inl DivideByZero
      else if int (length ident) < nBytes
      then Inr (ident, Some (ErrorsNew ''to many bytes to format''))
      else
        let timeBytes = storedUnits impl t (scale res) AND maskN nBytes in
        case slice_from ident (int (length ident) - nBytes) of
          Inl p \<Rightarrow> Inl p
        | Inr b \<Rightarrow>
            (case uint64ToBytes ident b nBytes timeBytes of
               Inl p \<Rightarrow> Inl p
             | Inr ident' \<Rightarrow> Inr (ident', None)))"

section \<open>Identifier generation\<close>

text \<open>
  The entropy source is an \<open>io.Reader\<close>, outside the package. It is modelled by what it
  delivers: the bytes it has, then the error it returns once they are used up.
  \<open>io.ReadFull r buf\<close> keeps reading until \<open>buf\<close> is full or the reader fails; it copies
  what arrived to the front of \<open>buf\<close>, and fails unless \<open>buf\<close> was filled, turning \<open>EOF\<close>
  after a partial read into \<open>ErrUnexpectedEOF\<close>.
\<close>

datatype reader = Reader (avail: "byte list") (fault: go_error)

fun write_bytes :: "byte list \<Rightarrow> nat \<Rightarrow> byte list \<Rightarrow> byte list" where
  "write_bytes mem k [] = mem"
| "write_bytes mem k (x # xs) = write_bytes (mem[k := x]) (Suc k) xs"

definition ReadFull :: "reader \<Rightarrow> byte list \<Rightarrow> bslice \<Rightarrow> byte list \<times> go_error option" where
  "ReadFull r mem b =
     (let n = min (slen b) (length (avail r));
          mem' = write_bytes mem (lo b) (take n (avail r))
      in if slen b \<le> n then (mem', None)
         else if 0 < n \<and> fault r = EOF then (mem', Some ErrUnexpectedEOF)
         else (mem', Some (fault r)))"

text \<open>
  \<^verbatim>\<open>
  func CustomTimeStampedUUID(r io.Reader, nBytes int, t uuid.Time, res time.Duration, rfc4122 bool) (uuid.UUID, error) {
      var id uuid.UUID
      const fname = "CustomTimeStampedUUID"
      var err error
      fail := func(err error) (uuid.UUID, error) {
          return id, fmt.Errorf("%s: %w", fname, err)
      }
      id, err = SetTimeStamp(id, nBytes, t, res)
      if err != nil {
          return fail(err)
      }
      _, err = io.ReadFull(r, id[:len(id)-nBytes])
      if err != nil {
          return fail(err)
      }
      if rfc4122 {
          id[6] = (id[6] & 0x0f) | 0x60 // Version 6
          id[8] = (id[8] & 0x3f) | 0xe0 // Variant is 111, future
      }
      return id, nil
  }
  \<close>
  The closure \<open>fail\<close> reads the variable \<open>id\<close> when it is called, so it returns the
  identifier as it is at the point of failure.
\<close>

definition fname :: string where
  "fname = ''CustomTimeStampedUUID''"

definition rfc4122_bits :: "byte list \<Rightarrow> byte list" where
  "rfc4122_bits ident =
     (let ident6 = ident[6 := (ident ! 6 AND 0x0f) OR 0x60]
      in ident6[8 := (ident6 ! 8 AND 0x3f) OR 0xe0])"

definition CustomTimeStampedUUID ::
  "(float64 \<Rightarrow> uint64) \<Rightarrow> reader \<Rightarrow> int \<Rightarrow> int \<Rightarrow> int \<Rightarrow> bool \<Rightarrow> panic + (byte list \<times> go_error option)" where
  "CustomTimeStampedUUID impl r nBytes t res rfc4122 =
     (case SetTimeStamp impl (replicate 16 0) nBytes t res of
        Inl p \<Rightarrow> Inl p
      | Inr (ident, Some err) \<Rightarrow> Inr (ident, Some (Errorf fname err))
      | Inr (ident, None) \<Rightarrow>
          (case slice_to ident (int (length ident) - nBytes) of
             Inl p \<Rightarrow> Inl p
           | Inr b \<Rightarrow>
               (case ReadFull r ident b of
                  (ident', Some err) \<Rightarrow> Inr (ident', Some (Errorf fname err))
                | (ident', None) \<Rightarrow>
                    Inr (if rfc4122 then rfc4122_bits ident' else ident', None))))"

section \<open>The older encoder (\<open>src/unnamed/part_000\<close>)\<close>

text \<open>
  The second file declares \<open>uint64ToBytes\<close>, \<open>SetTimeStamp\<close> and \<open>CustomTimeStampedUUID\<close>
  again; its generator takes four arguments and has no \<open>rfc4122\<close> step. Its functions are
  translated from its own text, under the suffix \<open>_part000\<close>.
\<close>

function uint64ToBytes_loop_part000 :: "byte list \<Rightarrow> bslice \<Rightarrow> int \<Rightarrow> uint64 \<Rightarrow> int \<Rightarrow> panic + byte list" where
  "uint64ToBytes_loop_part000 mem b n v i =
     (if i < n then
        (if 0 \<le> i \<and> i < int (slen b)
         then uint64ToBytes_loop_part000
                (mem[lo b + nat i := ucast (shr v (shl1 (n - 1 - i)))]) b n v (i + 1)
         else Inl IndexOutOfRange)
      else Inr mem)"
  by pat_completeness auto
termination
  by (relation "measure (\<lambda>(mem, b, n, v, i). nat (n - i))") auto

declare uint64ToBytes_loop_part000.simps [simp del]

definition uint64ToBytes_part000 :: "byte list \<Rightarrow> bslice \<Rightarrow> int \<Rightarrow> uint64 \<Rightarrow> panic + byte list" where
  "uint64ToBytes_part000 mem b n v =
     (if 0 \<le> n - 1 \<and> n - 1 < int (slen b)
      then uint64ToBytes_loop_part000 mem b n v 0
      else Inl IndexOutOfRange)"

definition SetTimeStamp_part000 ::
  "(float64 \<Rightarrow> uint64) \<Rightarrow> byte list \<Rightarrow> int \<Rightarrow> int \<Rightarrow> int \<Rightarrow> panic + (byte list \<times> go_error option)" where
  "SetTimeStamp_part000 impl ident nBytes t res =
     (if res = 0 then Inl DivideByZero
      else if int (length ident) < nBytes
      then Inr (ident, Some (ErrorsNew ''to many bytes to format''))
      else
        let timeBytes = storedUnits impl t (scale res) AND maskN nBytes in
        case slice_from ident (int (length ident) - nBytes) of
          Inl p \<Rightarrow> Inl p
        | Inr b \<Rightarrow>
            (case uint64ToBytes_part000 ident b nBytes timeBytes of
               Inl p \<Rightarrow> Inl p
             | Inr ident' \<Rightarrow> Inr (ident', None)))"

definition CustomTimeStampedUUID_part000 ::
  "(float64 \<Rightarrow> uint64) \<Rightarrow> reader \<Rightarrow> int \<Rightarrow> int \<Rightarrow> int \<Rightarrow> panic + (byte list \<times> go_error option)" where
  "CustomTimeStampedUUID_part000 impl r nBytes t res =
     (case SetTimeStamp_part000 impl (replicate 16 0) nBytes t res of
        Inl p \<Rightarrow> Inl p
      | Inr (ident, Some err) \<Rightarrow> Inr (ident, Some (Errorf fname err))
      | Inr (ident, None) \<Rightarrow>
          (case slice_to ident (int (length ident) - nBytes) of
             Inl p \<Rightarrow> Inl p
           | Inr b \<Rightarrow>
               (case ReadFull r ident b of
                  (ident', Some err) \<Rightarrow> Inr (ident', Some (Errorf fname err))
                | (ident', None) \<Rightarrow> Inr (ident', None))))"

section \<open>Derived notions used in the statements\<close>

text \<open>
  The zero identifier after \<open>SetTimeStamp\<close> has written \<open>nBytes\<close> bytes into it: zeros,
  then the bytes of the encoder loop for the masked count.
\<close>

definition stamped :: "(float64 \<Rightarrow> uint64) \<Rightarrow> int \<Rightarrow> int \<Rightarrow> int \<Rightarrow> byte list" where
  "stamped impl nBytes t res =
     replicate (16 - nat nBytes) 0 @
     map (encoded nBytes (storedUnits impl t (scale res) AND maskN nBytes)) [0..<nat nBytes]"

section \<open>Evaluation\<close>

lemmas codec_eval =
  uint64ToBytes_def uint64ToBytes_loop.simps bytesToUint64_def bytesToUint64_loop.simps
  shl1_def shr_def shl_def slice_from_def slice_to_def ReadCustomTimeStamp_def

lemmas float_eval =
  storedUnits_def float64_of_int_def round53_def rne_def Let_def compute_bitlen
  scale_def quo_def Second_def maskN_def shl_def

section \<open>The encoder loop\<close>

text \<open>
  A call of the loop with the index inside the slice, and the slice inside the array,
  returns the array with the bytes from the index to \<open>n\<close> replaced and everything else
  as it was.
\<close>

lemma uint64ToBytes_loop_eq:
  "0 \<le> i \<Longrightarrow> i \<le> n \<Longrightarrow> n \<le> int (slen b) \<Longrightarrow> lo b + slen b \<le> length mem \<Longrightarrow>
   uint64ToBytes_loop mem b n v i =
     Inr (take (lo b + nat i) mem @ map (encoded n v) [nat i..<nat n] @ drop (lo b + nat n) mem)"
proof (induction mem b n v i rule: uint64ToBytes_loop.induct)
  case (1 mem b n v i)
  show ?case
  proof (cases "i < n")
    case False
    with "1.prems" have "i = n" by simp
    then show ?thesis
      by (subst uint64ToBytes_loop.simps) simp
  next
    case True
    let ?x = "ucast (shr v (shl1 (n - 1 - i))) :: byte"
    let ?mem = "mem[lo b + nat i := ?x]"
    from True "1.prems" have inb: "0 \<le> i \<and> i < int (slen b)" by simp
    have k: "lo b + nat i < length mem" using inb "1.prems" by linarith
    have nat_suc: "nat (i + 1) = Suc (nat i)" using "1.prems" by simp
    have IH: "uint64ToBytes_loop ?mem b n v (i + 1) =
        Inr (take (lo b + nat (i + 1)) ?mem @ map (encoded n v) [nat (i + 1)..<nat n]
             @ drop (lo b + nat n) ?mem)"
      using "1.IH" [OF True inb] True "1.prems" by simp
    have tk: "take (lo b + nat (i + 1)) ?mem = take (lo b + nat i) mem @ [?x]"
      using k by (simp add: nat_suc take_Suc_conv_app_nth)
    have dr: "drop (lo b + nat n) ?mem = drop (lo b + nat n) mem"
      using True "1.prems" by simp
    have up: "[nat i..<nat n] = nat i # [nat (i + 1)..<nat n]"
      using True "1.prems" by (simp add: nat_suc upt_conv_Cons)
    have enc: "encoded n v (nat i) = ?x"
      using "1.prems" by (simp add: encoded_def)
    show ?thesis
      by (subst uint64ToBytes_loop.simps) (simp add: True inb IH tk dr up enc)
  qed
qed

lemma uint64ToBytes_eq:
  assumes "1 \<le> n" "n \<le> int (slen b)" "lo b + slen b \<le> length mem"
  shows "uint64ToBytes mem b n v =
     Inr (take (lo b) mem @ map (encoded n v) [0..<nat n] @ drop (lo b + nat n) mem)"
  using assms uint64ToBytes_loop_eq [of 0 n b mem v] by (simp add: uint64ToBytes_def)

lemma uint64ToBytes_loop_part000_eq:
  "uint64ToBytes_loop_part000 mem b n v i = uint64ToBytes_loop mem b n v i"
proof (induction mem b n v i rule: uint64ToBytes_loop.induct)
  case (1 mem b n v i)
  show ?case
    by (subst uint64ToBytes_loop_part000.simps, subst uint64ToBytes_loop.simps)
       (simp add: "1.IH")
qed

lemma uint64ToBytes_part000_eq:
  "uint64ToBytes_part000 mem b n v = uint64ToBytes mem b n v"
  by (simp add: uint64ToBytes_part000_def uint64ToBytes_def uint64ToBytes_loop_part000_eq)

lemma SetTimeStamp_part000_eq:
  "SetTimeStamp_part000 impl ident nBytes t res = SetTimeStamp impl ident nBytes t res"
  by (simp add: SetTimeStamp_part000_def SetTimeStamp_def uint64ToBytes_part000_eq
      cong: sum.case_cong)

section \<open>The decoder loop\<close>

lemma bytesToUint64_loop_returns:
  "0 \<le> i \<Longrightarrow> n \<le> int (slen b) \<Longrightarrow> \<exists>w. bytesToUint64_loop mem b n val i = Inr w"
proof (induction mem b n val i rule: bytesToUint64_loop.induct)
  case (1 mem b n val i)
  show ?case
  proof (cases "i < n")
    case False
    then show ?thesis by (subst bytesToUint64_loop.simps) simp
  next
    case True
    with "1.prems" have inb: "0 \<le> n - 1 - i \<and> n - 1 - i < int (slen b)" by simp
    from "1.IH" [OF True inb] "1.prems" show ?thesis
      by (subst bytesToUint64_loop.simps) (simp add: True inb)
  qed
qed

section \<open>The timestamp write, case by case\<close>

lemma SetTimeStamp_ok:
  assumes "res \<noteq> 0" "1 \<le> nBytes" "nBytes \<le> int (length ident)"
  shows "SetTimeStamp impl ident nBytes t res =
     Inr (take (length ident - nat nBytes) ident @
          map (encoded nBytes (storedUnits impl t (scale res) AND maskN nBytes)) [0..<nat nBytes],
          None)"
proof -
  let ?b = "Slice (length ident - nat nBytes) (nat nBytes)"
  have sl: "slice_from ident (int (length ident) - nBytes) = Inr ?b"
    using assms by (auto simp: slice_from_def nat_diff_distrib)
  have "uint64ToBytes ident ?b nBytes v =
      Inr (take (length ident - nat nBytes) ident @ map (encoded nBytes v) [0..<nat nBytes])" for v
    using assms uint64ToBytes_eq [of nBytes ?b ident v] by simp
  with sl assms show ?thesis by (simp add: SetTimeStamp_def)
qed

lemma SetTimeStamp_fail:
  "res = 0 \<Longrightarrow> SetTimeStamp impl ident nBytes t res = Inl DivideByZero"
  "res \<noteq> 0 \<Longrightarrow> int (length ident) < nBytes \<Longrightarrow>
     SetTimeStamp impl ident nBytes t res =
       Inr (ident, Some (ErrorsNew ''to many bytes to format''))"
  "res \<noteq> 0 \<Longrightarrow> nBytes = 0 \<Longrightarrow> SetTimeStamp impl ident nBytes t res = Inl IndexOutOfRange"
  "res \<noteq> 0 \<Longrightarrow> nBytes < 0 \<Longrightarrow> SetTimeStamp impl ident nBytes t res = Inl SliceBoundsOutOfRange"
  by (simp_all add: SetTimeStamp_def slice_from_def uint64ToBytes_def)

section \<open>The mask\<close>

lemma maskN_eq:
  assumes "1 \<le> nBytes" "nBytes \<le> 8"
  shows "maskN nBytes = mask (8 * nat nBytes)"
proof -
  have "nBytes * 8 = int (8 * nat nBytes)" using assms by simp
  then have "(word_of_int (nBytes * 8) :: uint64) = word_of_nat (8 * nat nBytes)"
    by (simp only: of_int_of_nat_eq)
  moreover have "unat (word_of_nat k :: uint64) = k" if "k \<le> 64" for k
    using that by (simp add: unat_of_nat)
  moreover have "8 * nat nBytes \<le> 64" using assms by simp
  ultimately have u: "unat (word_of_int (nBytes * 8) :: uint64) = 8 * nat nBytes"
    by (simp only:)
  have m: "maskN nBytes = shl 1 (8 * nat nBytes) - 1"
    unfolding maskN_def u ..
  show ?thesis
  proof (cases "nBytes = 8")
    case True
    with m show ?thesis by (simp add: shl_def mask_eq_exp_minus_1)
  next
    case False
    with assms have "8 * nat nBytes < 64" by simp
    then show ?thesis
      by (simp add: m shl_def mask_eq_exp_minus_1)
  qed
qed

lemma maskN_and:
  assumes "1 \<le> nBytes" "nBytes \<le> 8"
  shows "x AND maskN nBytes = word_of_nat (unat x mod 2 ^ (8 * nat nBytes))"
proof -
  have "x AND maskN nBytes = take_bit (8 * nat nBytes) x"
    by (simp add: maskN_eq [OF assms] take_bit_eq_mask)
  also have "\<dots> = word_of_nat (take_bit (8 * nat nBytes) (unat x))"
    by (simp add: take_bit_of_nat [symmetric])
  finally show ?thesis by (simp add: take_bit_eq_mod)
qed

lemma maskN_and_less:
  assumes "1 \<le> nBytes" "nBytes \<le> 8"
  shows "unat (x AND maskN nBytes) < 2 ^ (8 * nat nBytes)"
proof -
  have "unat (x AND maskN nBytes) \<le> unat x mod 2 ^ (8 * nat nBytes)"
    by (simp add: maskN_and [OF assms] unat_of_nat)
  also have "\<dots> < 2 ^ (8 * nat nBytes)" by simp
  finally show ?thesis .
qed

text \<open>
  For a width from 1 to 8 \<open>SetTimeStamp\<close> returns without error, and the value it hands
  to the encoder is the count modulo \<open>2^(8*nBytes)\<close>.
\<close>

lemma SetTimeStamp_masked_count:
  assumes "length ident = 16" "1 \<le> nBytes" "nBytes \<le> 8" "res \<noteq> 0"
  shows "\<exists>m b. SetTimeStamp impl ident nBytes t res = Inr (m, None) \<and>
     slice_from ident (int (length ident) - nBytes) = Inr b \<and>
     uint64ToBytes ident b nBytes
        (word_of_nat (unat (storedUnits impl t (scale res)) mod 2 ^ (8 * nat nBytes))) = Inr m \<and>
     storedUnits impl t (scale res) AND maskN nBytes =
        word_of_nat (unat (storedUnits impl t (scale res)) mod 2 ^ (8 * nat nBytes)) \<and>
     unat (storedUnits impl t (scale res) AND maskN nBytes) < 2 ^ (8 * nat nBytes)"
proof -
  let ?c = "storedUnits impl t (scale res)"
  let ?w = "word_of_nat (unat ?c mod 2 ^ (8 * nat nBytes)) :: uint64"
  let ?b = "Slice (length ident - nat nBytes) (nat nBytes)"
  let ?m = "take (length ident - nat nBytes) ident @ map (encoded nBytes ?w) [0..<nat nBytes]"
  have w: "?c AND maskN nBytes = ?w"
    using assms by (intro maskN_and) simp_all
  have lt: "unat (?c AND maskN nBytes) < 2 ^ (8 * nat nBytes)"
    using assms by (intro maskN_and_less) simp_all
  have s: "SetTimeStamp impl ident nBytes t res = Inr (?m, None)"
    using assms SetTimeStamp_ok [of res nBytes ident impl t] by (simp add: w)
  have sl: "slice_from ident (int (length ident) - nBytes) = Inr ?b"
    using assms by (auto simp: slice_from_def nat_diff_distrib)
  have u: "uint64ToBytes ident ?b nBytes ?w = Inr ?m"
    using assms uint64ToBytes_eq [of nBytes ?b ident ?w] by simp
  from s sl u w lt show ?thesis by blast
qed

section \<open>Reading from the entropy source\<close>

lemma write_bytes_eq:
  "k + length xs \<le> length mem \<Longrightarrow>
   write_bytes mem k xs = take k mem @ xs @ drop (k + length xs) mem"
proof (induction xs arbitrary: mem k)
  case Nil
  then show ?case by simp
next
  case (Cons x xs)
  then have k: "k < length mem" by simp
  have "write_bytes (mem[k := x]) (Suc k) xs =
      take (Suc k) (mem[k := x]) @ xs @ drop (Suc k + length xs) (mem[k := x])"
    using Cons.prems by (intro Cons.IH) simp
  with k show ?case
    by (simp add: take_Suc_conv_app_nth)
qed

lemma ReadFull_eq:
  assumes "h \<le> length mem"
  shows "fst (ReadFull r mem (Slice 0 h)) =
     take (min h (length (avail r))) (avail r) @ drop (min h (length (avail r))) mem"
proof -
  let ?n = "min h (length (avail r))"
  have "fst (ReadFull r mem (Slice 0 h)) = write_bytes mem 0 (take ?n (avail r))"
    by (simp add: ReadFull_def Let_def)
  also have "\<dots> = take 0 mem @ take ?n (avail r) @ drop (0 + length (take ?n (avail r))) mem"
    using assms by (intro write_bytes_eq) simp
  also have "\<dots> = take ?n (avail r) @ drop ?n mem"
    by simp
  finally show ?thesis .
qed

lemma ReadFull_err:
  "snd (ReadFull r mem (Slice 0 h)) =
     (if h \<le> length (avail r) then None
      else if 0 < length (avail r) \<and> fault r = EOF then Some ErrUnexpectedEOF
      else Some (fault r))"
  by (auto simp add: ReadFull_def Let_def min_def)

lemma fill_commute:
  "length A \<le> h \<Longrightarrow> h \<le> length xs \<Longrightarrow>
   take h (A @ drop (length A) xs) @ E = A @ drop (length A) (take h xs @ E)"
  by (simp add: drop_take)

section \<open>Concrete values\<close>

lemma storedUnits_300000: "storedUnits impl_zero 300000 (scale 100000) = 300"
  by (simp add: float_eval)

section \<open>The generator, case by case\<close>

lemma CustomTimeStampedUUID_too_wide:
  assumes "res \<noteq> 0" "16 < nBytes"
  shows "CustomTimeStampedUUID impl r nBytes t res flag =
     Inr (replicate 16 0, Some (Errorf fname (ErrorsNew ''to many bytes to format'')))"
  using assms by (simp add: CustomTimeStampedUUID_def SetTimeStamp_fail(2))

lemma CustomTimeStampedUUID_panics:
  "res = 0 \<Longrightarrow> CustomTimeStampedUUID impl r nBytes t res flag = Inl DivideByZero"
  "res \<noteq> 0 \<Longrightarrow> nBytes = 0 \<Longrightarrow>
     CustomTimeStampedUUID impl r nBytes t res flag = Inl IndexOutOfRange"
  "res \<noteq> 0 \<Longrightarrow> nBytes < 0 \<Longrightarrow>
     CustomTimeStampedUUID impl r nBytes t res flag = Inl SliceBoundsOutOfRange"
  by (simp_all add: CustomTimeStampedUUID_def SetTimeStamp_fail)

lemma SetTimeStamp_zero:
  assumes "res \<noteq> 0" "1 \<le> nBytes" "nBytes \<le> 16"
  shows "SetTimeStamp impl (replicate 16 0) nBytes t res = Inr (stamped impl nBytes t res, None)"
  using assms SetTimeStamp_ok [of res nBytes "replicate 16 0" impl t]
  by (simp add: stamped_def)

lemma length_stamped:
  "1 \<le> nBytes \<Longrightarrow> nBytes \<le> 16 \<Longrightarrow> length (stamped impl nBytes t res) = 16"
  by (simp add: stamped_def)

lemma CustomTimeStampedUUID_ok:
  assumes "res \<noteq> 0" "1 \<le> nBytes" "nBytes \<le> 16"
  shows "CustomTimeStampedUUID impl r nBytes t res flag =
    (let ts = stamped impl nBytes t res;
         k = min (16 - nat nBytes) (length (avail r));
         buf = take k (avail r) @ drop k ts
     in if 16 - nat nBytes \<le> length (avail r)
        then Inr (if flag then rfc4122_bits buf else buf, None)
        else if 0 < length (avail r) \<and> fault r = EOF
        then Inr (buf, Some (Errorf fname ErrUnexpectedEOF))
        else Inr (buf, Some (Errorf fname (fault r))))"
proof -
  let ?ts = "stamped impl nBytes t res"
  let ?h = "16 - nat nBytes"
  have len: "length ?ts = 16" using assms by (simp add: length_stamped)
  have sl: "slice_to ?ts (int (length ?ts) - nBytes) = Inr (Slice 0 ?h)"
    using assms len by (simp add: slice_to_def nat_diff_distrib)
  have rf: "ReadFull r ?ts (Slice 0 ?h) =
      (fst (ReadFull r ?ts (Slice 0 ?h)), snd (ReadFull r ?ts (Slice 0 ?h)))" by simp
  have f: "fst (ReadFull r ?ts (Slice 0 ?h)) =
      take (min ?h (length (avail r))) (avail r) @ drop (min ?h (length (avail r))) ?ts"
    using len by (intro ReadFull_eq) simp
  show ?thesis
    unfolding CustomTimeStampedUUID_def SetTimeStamp_zero [OF assms]
    apply (simp only: sum.case prod.case option.case sl)
    apply (subst rf)
    apply (simp only: f ReadFull_err prod.case Let_def)
    apply (simp split: if_splits)
    done
qed

section \<open>The marker bits\<close>

lemma byte_consts:
  "(0x0f :: byte) = mask 4" "(0x3f :: byte) = mask 6" "(0x1f :: byte) = mask 5"
  "(0x60 :: byte) = push_bit 5 (mask 2)" "(0xe0 :: byte) = push_bit 5 (mask 3)"
  "(0xf0 :: byte) = push_bit 4 (mask 4)" "(0xc0 :: byte) = push_bit 6 (mask 2)"
  by (simp_all add: mask_eq_exp_minus_1)

lemma version_nibble:
  fixes x :: byte
  shows "((x AND 0x0f) OR 0x60) AND 0xf0 = 0x60"
    and "((x AND 0x0f) OR 0x60) AND 0x0f = x AND 0x0f"
  unfolding byte_consts
  by (rule bit_word_eqI; auto simp: bit_simps)+

lemma variant_bits:
  fixes x :: byte
  shows "((x AND 0x3f) OR 0xe0) AND 0xe0 = 0xe0"
    and "((x AND 0x3f) OR 0xe0) AND 0xc0 = 0xc0"
    and "((x AND 0x3f) OR 0xe0) AND 0x1f = x AND 0x1f"
  unfolding byte_consts
  by (rule bit_word_eqI; auto simp: bit_simps)+

section \<open>Concrete runs of the generator\<close>

lemma replicate_numeral: "replicate (numeral k) x = x # replicate (pred_numeral k) x"
  by (simp add: numeral_eq_Suc)

lemma list_update_Cons_numeral: "(x # xs)[numeral k := y] = x # xs[pred_numeral k := y]"
  by (simp add: numeral_eq_Suc)

lemmas generator_eval =
  CustomTimeStampedUUID_def SetTimeStamp_def ReadFull_def rfc4122_bits_def impl_zero_def
  replicate_numeral list_update_Cons_numeral


lemma storedUnits_0: "storedUnits impl_zero 0 (scale 100000) = 0"
  by (simp add: float_eval)



text \<open>Time 0 and ten zero bytes of entropy, with and without the marker.\<close>

lemma generate_zero_marked:
  "CustomTimeStampedUUID impl_zero (Reader (replicate 10 0) EOF) 6 0 100000 True =
     Inr ([0, 0, 0, 0, 0, 0, 0x60, 0, 0xe0, 0, 0, 0, 0, 0, 0, 0], None)"
  by (simp add: generator_eval storedUnits_0 codec_eval maskN_def)

lemma generate_zero_plain:
  "CustomTimeStampedUUID impl_zero (Reader (replicate 10 0) EOF) 6 0 100000 False =
     Inr (replicate 16 0, None)"
  by (simp add: generator_eval storedUnits_0 codec_eval maskN_def)

text \<open>Width 1, 300000 ticks at 100 microseconds: written, then read back.\<close>

lemma scale_100us: "scale 100000 = 1000"
  by (simp add: scale_def quo_def Second_def)

lemma SetTimeStamp_width1:
  "SetTimeStamp impl_zero (replicate 16 0) 1 300000 100000 =
     Inr ([0, 0, 0, 0, 0, 0, 0, 0, 0, 0, 0, 0, 0, 0, 0, 0x16], None)"
  by (simp add: generator_eval storedUnits_300000 codec_eval maskN_def)

lemma ReadCustomTimeStamp_width1:
  "ReadCustomTimeStamp [0, 0, 0, 0, 0, 0, 0, 0, 0, 0, 0, 0, 0, 0, 0, 0x16] 1 = Inr 22"
  by (simp add: codec_eval)

lemma rfc4122_bits_nth:
  assumes "length buf = 16"
  shows "length (rfc4122_bits buf) = 16"
    and "rfc4122_bits buf ! 6 = (buf ! 6 AND 0x0f) OR 0x60"
    and "rfc4122_bits buf ! 8 = (buf ! 8 AND 0x3f) OR 0xe0"
    and "j \<noteq> 6 \<Longrightarrow> j \<noteq> 8 \<Longrightarrow> rfc4122_bits buf ! j = buf ! j"
  using assms by (simp_all add: rfc4122_bits_def Let_def)

section \<open>Claims\<close>

text \<open>
  C1 (round trip of the codec). The claim: for every width \<open>w\<close> in 1..8 and every
  \<open>v < 2^(8w)\<close>, decoding the \<open>w\<close> bytes that \<open>uint64ToBytes\<close> wrote for \<open>v\<close> gives \<open>v\<close>.
  The code does not do this: at width 1 the value 1 is written as the byte 0 (the encoder
  shifts by \<open>1 << 0 = 1\<close> bit, not by 0), and decoding that byte gives 0.
\<close>

theorem roundtrip_width1_value1:
  "(case uint64ToBytes [0] (Slice 0 1) 1 1 of
      Inl p \<Rightarrow> Inl p
    | Inr mem \<Rightarrow> bytesToUint64 mem (Slice 0 1) 1) = Inr 0"
  by (simp add: codec_eval)

text \<open>
  C2 (big-endian layout). The claim: destination byte \<open>i\<close> receives
  \<open>byte(v >> (8 * (n - 1 - i)))\<close>. The code shifts by \<open>1 << (n - 1 - i)\<close> bits instead:
  for \<open>n = 2\<close> and \<open>v = 0x0102\<close> it writes \<open>byte(v >> 2) = 0x40\<close> and
  \<open>byte(v >> 1) = 0x81\<close>, where big-endian order is \<open>0x01\<close>, \<open>0x02\<close>.
\<close>

theorem uint64ToBytes_width2_0x0102:
  "uint64ToBytes [0, 0] (Slice 0 2) 2 0x0102 = Inr [0x40, 0x81]"
  by (simp add: codec_eval)

text \<open>
  C3 (the stored count is the rounded number of \<open>res\<close>-sized intervals in \<open>t\<close>). With
  \<open>res\<close> one millisecond (1000000 ns) and \<open>t\<close> one millisecond (10000 ticks of 100 ns) the
  code divides by \<open>10^8 / 10^6 = 100\<close> and stores 100; the number of milliseconds in \<open>t\<close>
  is 1.
\<close>

theorem storedUnits_one_millisecond:
  "scale 1000000 = 100 \<and> storedUnits impl_zero 10000 (scale 1000000) AND maskN 6 = 100"
  by (simp add: float_eval)

text \<open>
  C10 (the two generators agree). For every reader, width, time and resolution the
  five-argument \<open>CustomTimeStampedUUID\<close> of \<open>main.go\<close>, called with \<open>rfc4122 = false\<close>,
  returns what the four-argument \<open>CustomTimeStampedUUID\<close> of \<open>part_000\<close> returns:
  the same panic, or the same identifier with the same error.
\<close>

theorem CustomTimeStampedUUID_part000_agrees:
  "CustomTimeStampedUUID impl r nBytes t res False =
   CustomTimeStampedUUID_part000 impl r nBytes t res"
  by (simp add: CustomTimeStampedUUID_def CustomTimeStampedUUID_part000_def
      SetTimeStamp_part000_eq
      split: sum.splits prod.splits option.splits)

text \<open>
  C9 (the decoder refuses more than eight bytes). A decode request of width more than 8
  panics, whatever the slice: the index check fails when the slice has at most 8 bytes,
  and the length check when it has more; and every slice longer than 8 bytes is refused
  at any width. No value comes back in either case. Through \<open>ReadCustomTimeStamp\<close> on a
  16-byte identifier the slice has exactly \<open>nBytes\<close> bytes, so with \<open>nBytes \<le> 8\<close> the
  panic of the length check is never reached, and with \<open>1 \<le> nBytes \<le> 8\<close> a value is
  returned.
\<close>

theorem bytesToUint64_rejects_wide:
  "(8 < n \<longrightarrow> (\<exists>p. bytesToUint64 mem b n = Inl p)) \<and>
   (8 < slen b \<longrightarrow> (\<exists>p. bytesToUint64 mem b n = Inl p)) \<and>
   (length ident = 16 \<and> nBytes \<le> 8 \<longrightarrow>
      ReadCustomTimeStamp ident nBytes \<noteq> Inl ByteSliceLarger) \<and>
   (length ident = 16 \<and> 1 \<le> nBytes \<and> nBytes \<le> 8 \<longrightarrow>
      (\<exists>w. ReadCustomTimeStamp ident nBytes = Inr w))"
proof (intro conjI impI)
  assume "8 < n"
  then show "\<exists>p. bytesToUint64 mem b n = Inl p"
    by (auto simp: bytesToUint64_def)
next
  assume "8 < slen b"
  then show "\<exists>p. bytesToUint64 mem b n = Inl p"
    by (simp add: bytesToUint64_def)
next
  assume a: "length ident = 16 \<and> nBytes \<le> 8"
  show "ReadCustomTimeStamp ident nBytes \<noteq> Inl ByteSliceLarger"
  proof (cases "0 \<le> nBytes")
    case False
    with a show ?thesis by (simp add: ReadCustomTimeStamp_def slice_from_def)
  next
    case True
    with a have "slice_from ident (int (length ident) - nBytes) =
        Inr (Slice (nat (16 - nBytes)) (nat nBytes))"
      by (auto simp: slice_from_def)
    moreover have "bytesToUint64 ident (Slice (nat (16 - nBytes)) (nat nBytes)) nBytes
        \<noteq> Inl ByteSliceLarger"
      using a True
        bytesToUint64_loop_returns [of 0 nBytes "Slice (nat (16 - nBytes)) (nat nBytes)" ident 0]
      by (auto simp: bytesToUint64_def)
    ultimately show ?thesis by (simp add: ReadCustomTimeStamp_def)
  qed
next
  assume a: "length ident = 16 \<and> 1 \<le> nBytes \<and> nBytes \<le> 8"
  then have "slice_from ident (int (length ident) - nBytes) =
      Inr (Slice (nat (16 - nBytes)) (nat nBytes))"
    by (auto simp: slice_from_def)
  moreover have "\<exists>w. bytesToUint64 ident (Slice (nat (16 - nBytes)) (nat nBytes)) nBytes = Inr w"
    using a
      bytesToUint64_loop_returns [of 0 nBytes "Slice (nat (16 - nBytes)) (nat nBytes)" ident 0]
    by (auto simp: bytesToUint64_def)
  ultimately show "\<exists>w. ReadCustomTimeStamp ident nBytes = Inr w"
    by (simp add: ReadCustomTimeStamp_def)
qed

theorem bytesToUint64_rejects_wide_witness:
  "(\<exists>p. bytesToUint64 (replicate 8 0) (Slice 0 8) 9 = Inl p) \<and>
   (\<exists>p. bytesToUint64 (replicate 16 0) (Slice 0 16) 9 = Inl p) \<and>
   ReadCustomTimeStamp (replicate 16 0) 6 \<noteq> Inl ByteSliceLarger \<and>
   (\<exists>w. ReadCustomTimeStamp (replicate 16 0) 6 = Inr w)"
  using bytesToUint64_rejects_wide [of 9 "replicate 8 0" "Slice 0 8" "replicate 16 0" 6]
    bytesToUint64_rejects_wide [of 9 "replicate 16 0" "Slice 0 16" "replicate 16 0" 6]
  by simp

text \<open>
  C8 (the timestamp write leaves the leading bytes alone, and commutes with the random
  fill). For a 16-byte identifier, \<open>1 \<le> nBytes \<le> 16\<close> (the valid widths 1..8 among them)
  and a resolution other than 0, \<open>SetTimeStamp\<close> returns without error a 16-byte
  identifier that agrees with its argument on the leading \<open>16 - nBytes\<close> bytes; and
  filling the leading slice \<open>id[:16-nBytes]\<close> from the reader before the timestamp is
  written gives the same buffer as filling it afterwards, whatever the reader delivers.
\<close>

theorem SetTimeStamp_frame:
  assumes "length ident = 16" "1 \<le> nBytes" "nBytes \<le> 16" "res \<noteq> 0"
  shows "\<exists>ident' b.
     SetTimeStamp impl ident nBytes t res = Inr (ident', None) \<and>
     length ident' = 16 \<and>
     take (16 - nat nBytes) ident' = take (16 - nat nBytes) ident \<and>
     slice_to ident (int (length ident) - nBytes) = Inr b \<and>
     SetTimeStamp impl (fst (ReadFull r ident b)) nBytes t res =
       Inr (fst (ReadFull r ident' b), None)"
proof -
  let ?w = "storedUnits impl t (scale res) AND maskN nBytes"
  let ?E = "map (encoded nBytes ?w) [0..<nat nBytes]"
  let ?h = "16 - nat nBytes"
  let ?k = "min ?h (length (avail r))"
  let ?ident' = "take ?h ident @ ?E"
  let ?b = "Slice 0 ?h"
  have s1: "SetTimeStamp impl ident nBytes t res = Inr (?ident', None)"
    using assms SetTimeStamp_ok [of res nBytes ident impl t] by simp
  have len': "length ?ident' = 16" using assms by simp
  have fr: "take ?h ?ident' = take ?h ident" using assms by simp
  have sl: "slice_to ident (int (length ident) - nBytes) = Inr ?b"
    using assms by (simp add: slice_to_def nat_diff_distrib)
  have r1: "fst (ReadFull r ident ?b) = take ?k (avail r) @ drop ?k ident"
    using assms by (intro ReadFull_eq) simp
  have r2: "fst (ReadFull r ?ident' ?b) = take ?k (avail r) @ drop ?k ?ident'"
    using len' by (intro ReadFull_eq) simp
  have lenr: "length (fst (ReadFull r ident ?b)) = 16"
    using assms by (simp add: r1)
  have s2: "SetTimeStamp impl (fst (ReadFull r ident ?b)) nBytes t res =
      Inr (take ?h (fst (ReadFull r ident ?b)) @ ?E, None)"
    using assms lenr SetTimeStamp_ok [of res nBytes "fst (ReadFull r ident ?b)" impl t] by simp
  have lk: "length (take ?k (avail r)) = ?k" by simp
  have "take ?h (take ?k (avail r) @ drop ?k ident) @ ?E = take ?k (avail r) @ drop ?k ?ident'"
    using assms fill_commute [of "take ?k (avail r)" ?h ident ?E]
    unfolding lk by simp
  with s2 r1 r2 have "SetTimeStamp impl (fst (ReadFull r ident ?b)) nBytes t res =
       Inr (fst (ReadFull r ?ident' ?b), None)" by simp
  with s1 len' fr sl show ?thesis by blast
qed

theorem SetTimeStamp_frame_witness:
  "\<exists>ident' b.
     SetTimeStamp impl_zero (replicate 16 255) 6 1000000000 100000 = Inr (ident', None) \<and>
     length ident' = 16 \<and>
     take 10 ident' = replicate 10 255 \<and>
     slice_to (replicate 16 255) 10 = Inr b \<and>
     SetTimeStamp impl_zero (fst (ReadFull (Reader [1, 2, 3] EOF) (replicate 16 255) b))
         6 1000000000 100000 =
       Inr (fst (ReadFull (Reader [1, 2, 3] EOF) ident' b), None)"
  using SetTimeStamp_frame
    [of "replicate 16 255" 6 100000 impl_zero 1000000000 "Reader [1, 2, 3] EOF"]
  by simp

text \<open>
  C6 (overflow wraps: the count modulo \<open>2^(8*nBytes)\<close> is written). The claim: for
  \<open>nBytes\<close> in 1..8 and a stored-unit count of \<open>2^(8*nBytes)\<close> or more, \<open>SetTimeStamp\<close>
  returns without error and the timestamp region holds the count modulo \<open>2^(8*nBytes)\<close>.
  The code returns without error and masks the count, but what it writes is not the
  masked count: at width 1 and resolution 100 microseconds (where the divisor, 1000, is
  the right one) a time of 300000 ticks is 300 stored units, \<open>300 mod 256 = 44 = 0x2c\<close>,
  and the byte written is \<open>byte(44 >> 1) = 0x16\<close>; reading the timestamp back gives 22.
\<close>

theorem SetTimeStamp_width1_300_units:
  "scale 100000 = 1000 \<and>
   storedUnits impl_zero 300000 (scale 100000) = 300 \<and>
   SetTimeStamp impl_zero (replicate 16 0) 1 300000 100000 =
     Inr ([0, 0, 0, 0, 0, 0, 0, 0, 0, 0, 0, 0, 0, 0, 0, 0x16], None) \<and>
   ReadCustomTimeStamp [0, 0, 0, 0, 0, 0, 0, 0, 0, 0, 0, 0, 0, 0, 0, 0x16] 1 = Inr 22"
  using scale_100us storedUnits_300000 SetTimeStamp_width1 ReadCustomTimeStamp_width1
  by (intro conjI)







text \<open>
  C7 as stated (only the high nibble of byte 6 and the top two bits of byte 8 change)
  does not hold: from an all-zero buffer the marker makes byte 8 \<open>0xe0\<close>, so the low six
  bits of byte 8 go from \<open>0x00\<close> to \<open>0x20\<close>. The marker sets three bits there.
\<close>

theorem rfc4122_marker_sets_bit5:
  "CustomTimeStampedUUID impl_zero (Reader (replicate 10 0) EOF) 6 0 100000 False =
     Inr (replicate 16 0, None) \<and>
   CustomTimeStampedUUID impl_zero (Reader (replicate 10 0) EOF) 6 0 100000 True =
     Inr ([0, 0, 0, 0, 0, 0, 0x60, 0, 0xe0, 0, 0, 0, 0, 0, 0, 0], None) \<and>
   [0, 0, 0, 0, 0, 0, 0x60, 0, 0xe0, 0, 0, 0, 0, 0, 0, 0 :: byte] ! 8 AND 0x3f = 0x20 \<and>
   (replicate 16 0 :: byte list) ! 8 AND 0x3f = 0"
  by (simp add: generate_zero_marked generate_zero_plain)

text \<open>
  C7, amended (the format marker). Whenever \<open>CustomTimeStampedUUID\<close> succeeds with the
  flag set, it succeeds with the flag clear on the same inputs, and against that
  identifier (the content before the marker) the one returned has: in byte 6 the high
  nibble 6 and the low nibble unchanged; in byte 8 the top three bits 111 (so the top
  two are 11) and the low five bits unchanged; every other byte unchanged.
\<close>

theorem rfc4122_marker:
  assumes "CustomTimeStampedUUID impl r nBytes t res True = Inr (ident, None)"
  shows "\<exists>ident0.
      CustomTimeStampedUUID impl r nBytes t res False = Inr (ident0, None) \<and>
      length ident0 = 16 \<and> length ident = 16 \<and>
      ident ! 6 AND 0xf0 = 0x60 \<and>
      ident ! 6 AND 0x0f = ident0 ! 6 AND 0x0f \<and>
      ident ! 8 AND 0xe0 = 0xe0 \<and>
      ident ! 8 AND 0xc0 = 0xc0 \<and>
      ident ! 8 AND 0x1f = ident0 ! 8 AND 0x1f \<and>
      (\<forall>j. j \<noteq> 6 \<and> j \<noteq> 8 \<longrightarrow> ident ! j = ident0 ! j)"
proof -
  have res: "res \<noteq> 0"
    using assms CustomTimeStampedUUID_panics(1) [of res impl r nBytes t True] by auto
  have pos: "1 \<le> nBytes"
    using assms res CustomTimeStampedUUID_panics(2,3) [of res nBytes impl r t True]
    by (cases "nBytes = 0"; cases "nBytes < 0") auto
  have le: "nBytes \<le> 16"
    using assms res CustomTimeStampedUUID_too_wide [of res nBytes impl r t True]
    by (cases "16 < nBytes") auto
  let ?ts = "stamped impl nBytes t res"
  let ?h = "16 - nat nBytes"
  let ?buf = "take ?h (avail r) @ drop ?h ?ts"
  have full: "?h \<le> length (avail r)"
    using assms by (simp add: CustomTimeStampedUUID_ok [OF res pos le] Let_def split: if_splits)
  then have k: "min ?h (length (avail r)) = ?h" by simp
  have marked: "ident = rfc4122_bits ?buf"
    using assms full by (simp add: CustomTimeStampedUUID_ok [OF res pos le] Let_def k)
  have plain: "CustomTimeStampedUUID impl r nBytes t res False = Inr (?buf, None)"
    using full by (simp add: CustomTimeStampedUUID_ok [OF res pos le] Let_def k)
  have len: "length ?buf = 16"
    using full pos le by (simp add: length_stamped)
  note n = rfc4122_bits_nth [OF len]
  have "ident ! 6 AND 0xf0 = 0x60" "ident ! 6 AND 0x0f = ?buf ! 6 AND 0x0f"
    "ident ! 8 AND 0xe0 = 0xe0" "ident ! 8 AND 0xc0 = 0xc0"
    "ident ! 8 AND 0x1f = ?buf ! 8 AND 0x1f"
    unfolding marked n(2,3) by (rule version_nibble variant_bits)+
  moreover have "\<forall>j. j \<noteq> 6 \<and> j \<noteq> 8 \<longrightarrow> ident ! j = ?buf ! j"
    unfolding marked using n(4) by blast
  moreover have "length ident = 16" unfolding marked by (rule n(1))
  ultimately show ?thesis using plain len by blast
qed

theorem rfc4122_marker_witness:
  "\<exists>ident0.
      CustomTimeStampedUUID impl_zero (Reader (replicate 10 0) EOF) 6 0 100000 False =
        Inr (ident0, None) \<and>
      length ident0 = 16 \<and>
      length [0, 0, 0, 0, 0, 0, 0x60, 0, 0xe0, 0, 0, 0, 0, 0, 0, 0 :: byte] = 16 \<and>
      [0, 0, 0, 0, 0, 0, 0x60, 0, 0xe0, 0, 0, 0, 0, 0, 0, 0 :: byte] ! 6 AND 0xf0 = 0x60 \<and>
      [0, 0, 0, 0, 0, 0, 0x60, 0, 0xe0, 0, 0, 0, 0, 0, 0, 0 :: byte] ! 6 AND 0x0f =
         ident0 ! 6 AND 0x0f \<and>
      [0, 0, 0, 0, 0, 0, 0x60, 0, 0xe0, 0, 0, 0, 0, 0, 0, 0 :: byte] ! 8 AND 0xe0 = 0xe0 \<and>
      [0, 0, 0, 0, 0, 0, 0x60, 0, 0xe0, 0, 0, 0, 0, 0, 0, 0 :: byte] ! 8 AND 0xc0 = 0xc0 \<and>
      [0, 0, 0, 0, 0, 0, 0x60, 0, 0xe0, 0, 0, 0, 0, 0, 0, 0 :: byte] ! 8 AND 0x1f =
         ident0 ! 8 AND 0x1f \<and>
      (\<forall>j. j \<noteq> 6 \<and> j \<noteq> 8 \<longrightarrow>
         [0, 0, 0, 0, 0, 0, 0x60, 0, 0xe0, 0, 0, 0, 0, 0, 0, 0 :: byte] ! j = ident0 ! j)"
  by (rule rfc4122_marker [OF generate_zero_marked])

end
